theory Spec2Isabelle
  imports Complex_Main "HOL-Library.AList"
begin

section \<open>Data model of \<open>claim_processor.py\<close>\<close>

text \<open>
  Conventions of the embedding.
  \<^item> A Python \<open>float\<close> is a \<open>pyfloat\<close>: a finite value, an infinity or NaN, with the
    comparisons of IEEE 754 (every comparison with NaN is false). Finite values range
    over all reals, which include every double and every Python \<open>int\<close>. What the
    built-in \<open>sum\<close> makes of a non-empty list of floats (rounded additions, whose
    scheme depends on the interpreter) is a parameter.
  \<^item> \<open>datetime.now()\<close> is a parameter of every operation that reads the clock.
  \<^item> \<open>secrets.token_urlsafe(32)\<close> is a parameter of \<open>create_session\<close>: the token drawn.
  \<^item> A Python \<open>dict\<close> is an association list in insertion order whose keys are
    distinct; \<open>d[k] = v\<close> is \<^const>\<open>AList.update\<close> (replace in place, else append),
    \<open>del d[k]\<close> is \<^const>\<open>AList.delete\<close>, \<open>k in d\<close> and \<open>d.get(k)\<close> are \<^const>\<open>map_of\<close>.
  \<^item> \<open>Claim\<close> objects are mutable and shared between the caller and the engine's
    dictionary, so they live in a store indexed by references; the dictionary holds
    references. \<open>Patient\<close> objects are never mutated by the engine and are held by value.
  \<^item> Every \<open>raise ValueError(msg)\<close> is a value of \<open>error\<close>, one constructor per
    message, and an operation returns its result together with the state it leaves.
  \<^item> A \<open>Claim\<close> object is always true in a condition (the dataclass defines neither
    \<open>__bool__\<close> nor \<open>__len__\<close>), so \<open>if not claim\<close> tests for \<open>None\<close> only.
  \<^item> Names are the source's, except where a name is taken: \<open>_process_claim\<close> is
    \<open>process_claim\<close>, \<open>__post_init__\<close> is \<open>Patient_post_init\<close> and
    \<open>Claim_post_init\<close>, the entries of a user's dictionary carry the prefix \<open>u_\<close>,
    and a parameter named like a field is shortened (\<open>pid\<close>, \<open>email_arg\<close>).
\<close>

datatype ClaimStatus = PENDING | APPROVED | REJECTED | PROCESSING | REQUIRES_REVIEW

datatype UserType = PATIENT | PROVIDER | PAYOR

type_synonym date = int

type_synonym datetime = nat

subsection \<open>Python floats\<close>

datatype pyfloat = Fin real | PInf | MInf | NaN

instantiation pyfloat :: ord
begin

fun less_eq_pyfloat :: "pyfloat \<Rightarrow> pyfloat \<Rightarrow> bool" where
  "less_eq_pyfloat NaN y = False"
| "less_eq_pyfloat x NaN = False"
| "less_eq_pyfloat MInf y = True"
| "less_eq_pyfloat x PInf = True"
| "less_eq_pyfloat (Fin a) (Fin b) = (a \<le> b)"
| "less_eq_pyfloat PInf y = False"
| "less_eq_pyfloat x MInf = False"

fun less_pyfloat :: "pyfloat \<Rightarrow> pyfloat \<Rightarrow> bool" where
  "less_pyfloat NaN y = False"
| "less_pyfloat x NaN = False"
| "less_pyfloat PInf y = False"
| "less_pyfloat x MInf = False"
| "less_pyfloat (Fin a) (Fin b) = (a < b)"
| "less_pyfloat MInf y = True"
| "less_pyfloat x PInf = True"

instance ..

end


subsection \<open>Errors and entities\<close>

datatype error =
    Invalid_email_format
  | Insurance_ID_is_required
  | Claim_amount_must_be_positive
  | Claim_description_too_short
  | Patient_not_found
  | Claim_amount_exceeds_maximum_limit pyfloat
  | Password_too_short

record Patient =
  id :: string
  name :: string
  email :: string
  date_of_birth :: date
  insurance_id :: string
  phone :: "string option"

record Claim =
  id :: string
  patient_id :: string
  provider_id :: string
  amount :: pyfloat
  description :: string
  date_of_service :: date
  status :: ClaimStatus
  created_at :: "datetime option"
  updated_at :: "datetime option"

subsection \<open>The regular expression \<open>^[^@]+@[^@]+\.[^@]+$\<close>\<close>

text \<open>
  A backtracking matcher in continuation style, one function per construct of the
  pattern: \<open>[^@]+\<close> consumes one or more characters other than \<open>@\<close> and tries the rest
  of the pattern after each of them; a literal consumes exactly that character; \<open>$\<close>
  succeeds at the end of the string or just before a final newline.
\<close>

fun not_at_plus :: "(string \<Rightarrow> bool) \<Rightarrow> string \<Rightarrow> bool" where
  "not_at_plus k [] = False"
| "not_at_plus k (c # cs) = (c \<noteq> CHR ''@'' \<and> (k cs \<or> not_at_plus k cs))"

fun literal :: "char \<Rightarrow> (string \<Rightarrow> bool) \<Rightarrow> string \<Rightarrow> bool" where
  "literal a k [] = False"
| "literal a k (c # cs) = (c = a \<and> k cs)"

definition dollar :: "string \<Rightarrow> bool" where
  "dollar s = (s = [] \<or> s = [CHR 0x0A])"

definition re_match_email :: "string \<Rightarrow> bool" where
  "re_match_email s =
     not_at_plus (literal CHR ''@'' (not_at_plus (literal CHR ''.'' (not_at_plus dollar)))) s"

subsection \<open>\<open>str.strip()\<close>\<close>

text \<open>The characters below U+0100 for which Python's \<open>str.isspace\<close> holds.\<close>

definition isspace :: "char \<Rightarrow> bool" where
  "isspace c =
     (let n = (of_char c :: nat)
      in (9 \<le> n \<and> n \<le> 13) \<or> (28 \<le> n \<and> n \<le> 32) \<or> n = 133 \<or> n = 160)"

definition strip :: "string \<Rightarrow> string" where
  "strip s = rev (dropWhile isspace (rev (dropWhile isspace s)))"

subsection \<open>Construction: \<open>__post_init__\<close>\<close>

definition Patient_post_init :: "Patient \<Rightarrow> error + Patient" where
  "Patient_post_init self =
     (if email self = [] \<or> \<not> re_match_email (email self) then Inl Invalid_email_format
      else if insurance_id self = [] then Inl Insurance_ID_is_required
      else Inr self)"

text \<open>
  \<open>t1\<close> and \<open>t2\<close> are the two readings of the clock that fill \<open>created_at\<close> and
  \<open>updated_at\<close> when the caller left them \<open>None\<close>.
\<close>

definition Claim_post_init :: "datetime \<Rightarrow> datetime \<Rightarrow> Claim \<Rightarrow> error + Claim" where
  "Claim_post_init t1 t2 self =
     (let self = (if created_at self = None then self\<lparr>created_at := Some t1\<rparr> else self);
          self = (if updated_at self = None then self\<lparr>updated_at := Some t2\<rparr> else self)
      in if amount self \<le> Fin 0 then Inl Claim_amount_must_be_positive
         else if description self = [] \<or> length (strip (description self)) < 5
           then Inl Claim_description_too_short
         else Inr self)"

section \<open>\<open>ClaimProcessor\<close>\<close>

type_synonym ref = nat

text \<open>
  \<open>heap\<close> is the store of \<open>Claim\<close> objects; the other four fields are the attributes
  that \<open>__init__\<close> sets.
\<close>

record ClaimProcessor =
  heap :: "ref \<Rightarrow> Claim"
  claims :: "(string \<times> ref) list"
  patients :: "(string \<times> Patient) list"
  auto_approve_threshold :: pyfloat
  max_claim_amount :: pyfloat

definition ClaimProcessor_init :: "(ref \<Rightarrow> Claim) \<Rightarrow> ClaimProcessor" where
  "ClaimProcessor_init h =
     \<lparr>heap = h, claims = [], patients = [],
      auto_approve_threshold = Fin 100, max_claim_amount = Fin 50000\<rparr>"

definition register_patient :: "Patient \<Rightarrow> ClaimProcessor \<Rightarrow> bool \<times> ClaimProcessor" where
  "register_patient patient self =
     (if map_of (patients self) (Patient.id patient) \<noteq> None then (False, self)
      else (True, self\<lparr>patients := AList.update (Patient.id patient) patient (patients self)\<rparr>))"

definition get_patient :: "string \<Rightarrow> ClaimProcessor \<Rightarrow> Patient option" where
  "get_patient pid self = map_of (patients self) pid"

text \<open>\<open>_process_claim\<close>: the auto-decision rule, applied to the object behind \<open>r\<close>.\<close>

definition process_claim :: "datetime \<Rightarrow> ref \<Rightarrow> ClaimProcessor \<Rightarrow> ClaimProcessor" where
  "process_claim now r self =
     (let claim = heap self r;
          claim = (if amount claim \<le> auto_approve_threshold self
                     then claim\<lparr>status := APPROVED\<rparr>
                   else if amount claim > Fin 10000
                     then claim\<lparr>status := REQUIRES_REVIEW\<rparr>
                   else claim\<lparr>status := PROCESSING\<rparr>);
          claim = claim\<lparr>updated_at := Some now\<rparr>
      in self\<lparr>heap := (heap self)(r := claim)\<rparr>)"

definition submit_claim ::
  "datetime \<Rightarrow> ref \<Rightarrow> ClaimProcessor \<Rightarrow> (error + bool) \<times> ClaimProcessor" where
  "submit_claim now r self =
     (let claim = heap self r
      in if map_of (claims self) (Claim.id claim) \<noteq> None then (Inr False, self)
         else if map_of (patients self) (patient_id claim) = None
           then (Inl Patient_not_found, self)
         else if amount claim > max_claim_amount self
           then (Inl (Claim_amount_exceeds_maximum_limit (max_claim_amount self)), self)
         else (Inr True,
               process_claim now r
                 (self\<lparr>claims := AList.update (Claim.id claim) r (claims self)\<rparr>)))"

definition approve_claim :: "datetime \<Rightarrow> string \<Rightarrow> ClaimProcessor \<Rightarrow> bool \<times> ClaimProcessor" where
  "approve_claim now claim_id self =
     (case map_of (claims self) claim_id of
        None \<Rightarrow> (False, self)
      | Some r \<Rightarrow>
          if status (heap self r) \<in> set [APPROVED, REJECTED] then (False, self)
          else (True,
                self\<lparr>heap := (heap self)
                  (r := (heap self r)\<lparr>status := APPROVED, updated_at := Some now\<rparr>)\<rparr>))"

definition reject_claim ::
  "datetime \<Rightarrow> string \<Rightarrow> string \<Rightarrow> ClaimProcessor \<Rightarrow> bool \<times> ClaimProcessor" where
  "reject_claim now claim_id reason self =
     (case map_of (claims self) claim_id of
        None \<Rightarrow> (False, self)
      | Some r \<Rightarrow>
          if status (heap self r) \<in> set [APPROVED, REJECTED] then (False, self)
          else (True,
                self\<lparr>heap := (heap self)
                  (r := (heap self r)\<lparr>status := REJECTED, updated_at := Some now\<rparr>)\<rparr>))"

definition get_claim :: "string \<Rightarrow> ClaimProcessor \<Rightarrow> Claim option" where
  "get_claim claim_id self = map_option (heap self) (map_of (claims self) claim_id)"

text \<open>\<open>self.claims.values()\<close>: the stored objects, in insertion order.\<close>

definition claims_values :: "ClaimProcessor \<Rightarrow> Claim list" where
  "claims_values self = map (\<lambda>(k, r). heap self r) (claims self)"

definition get_claims_by_patient :: "string \<Rightarrow> ClaimProcessor \<Rightarrow> Claim list" where
  "get_claims_by_patient pid self = [claim \<leftarrow> claims_values self. patient_id claim = pid]"

definition get_claims_by_status :: "ClaimStatus \<Rightarrow> ClaimProcessor \<Rightarrow> Claim list" where
  "get_claims_by_status st self = [claim \<leftarrow> claims_values self. status claim = st]"


section \<open>\<open>AuthenticationService\<close>\<close>

record user_data =
  u_email :: string
  u_password :: string
  u_user_type :: UserType
  u_created_at :: datetime
  u_is_active :: bool

record AuthenticationService =
  users :: "(string \<times> user_data) list"
  active_sessions :: "(string \<times> string) list"

definition AuthenticationService_init :: AuthenticationService where
  "AuthenticationService_init = \<lparr>users = [], active_sessions = []\<rparr>"

definition register_user ::
  "datetime \<Rightarrow> string \<Rightarrow> string \<Rightarrow> string \<Rightarrow> UserType \<Rightarrow> AuthenticationService
     \<Rightarrow> (error + bool) \<times> AuthenticationService" where
  "register_user now user_id email_arg password user_type self =
     (if map_of (users self) user_id \<noteq> None then (Inr False, self)
      else if email_arg = [] \<or> \<not> re_match_email email_arg
        then (Inl Invalid_email_format, self)
      else if length password < 8 then (Inl Password_too_short, self)
      else (Inr True,
            self\<lparr>users := AList.update user_id
              \<lparr>u_email = email_arg, u_password = password, u_user_type = user_type,
               u_created_at = now, u_is_active = True\<rparr> (users self)\<rparr>))"

text \<open>\<open>token\<close> is the value that \<open>secrets.token_urlsafe(32)\<close> returned.\<close>

definition create_session ::
  "string \<Rightarrow> string \<Rightarrow> AuthenticationService \<Rightarrow> string \<times> AuthenticationService" where
  "create_session token user_id self =
     (token, self\<lparr>active_sessions := AList.update token user_id (active_sessions self)\<rparr>)"

definition validate_session :: "string \<Rightarrow> AuthenticationService \<Rightarrow> string option" where
  "validate_session token self = map_of (active_sessions self) token"

definition logout :: "string \<Rightarrow> AuthenticationService \<Rightarrow> bool \<times> AuthenticationService" where
  "logout token self =
     (if map_of (active_sessions self) token \<noteq> None
        then (True, self\<lparr>active_sessions := AList.delete token (active_sessions self)\<rparr>)
      else (False, self))"

section \<open>Sequences of calls and the invariant of the engine\<close>

text \<open>
  A caller's calls on one engine, in order; each call leaves the state that the
  operation returns (the state is unchanged where the operation raises).
\<close>

datatype engine_op =
    Register_patient Patient
  | Submit_claim datetime ref
  | Approve_claim datetime string
  | Reject_claim datetime string string

fun engine_step :: "engine_op \<Rightarrow> ClaimProcessor \<Rightarrow> ClaimProcessor" where
  "engine_step (Register_patient p) self = snd (register_patient p self)"
| "engine_step (Submit_claim now r) self = snd (submit_claim now r self)"
| "engine_step (Approve_claim now cid) self = snd (approve_claim now cid self)"
| "engine_step (Reject_claim now cid reason) self = snd (reject_claim now cid reason self)"

definition run_engine :: "engine_op list \<Rightarrow> ClaimProcessor \<Rightarrow> ClaimProcessor" where
  "run_engine ops self = fold engine_step ops self"

text \<open>The manual decisions: \<open>approve_claim\<close> and \<open>reject_claim\<close>.\<close>

fun is_decision :: "engine_op \<Rightarrow> bool" where
  "is_decision (Approve_claim now cid) = True"
| "is_decision (Reject_claim now cid reason) = True"
| "is_decision _ = False"

text \<open>
  What the dictionaries of a running engine satisfy: keys are distinct (they are
  dictionaries), and every \<open>Claim\<close> object is stored under its own \<open>id\<close>, as
  \<open>submit_claim\<close> stores it. Hence no object is stored under two identifiers.
\<close>

definition well_formed :: "ClaimProcessor \<Rightarrow> bool" where
  "well_formed self \<longleftrightarrow>
     distinct (map fst (claims self)) \<and> distinct (map fst (patients self)) \<and>
     (\<forall>(k, r) \<in> set (claims self). Claim.id (heap self r) = k)"

section \<open>A concrete engine\<close>

text \<open>
  One registered patient \<open>P1\<close>; six \<open>Claim\<close> objects in the store, of which the
  first three are submitted in \<open>ex_engine3\<close>: \<open>C1\<close> of 75, \<open>C2\<close> of 500 and \<open>C3\<close>
  of 15000. Object 3 repeats the identifier \<open>C1\<close> for an unregistered patient,
  object 4 is for an unregistered patient, object 5 exceeds the ceiling and the amount
  of object 6 is NaN.
\<close>

definition ex_patient :: Patient where
  "ex_patient = \<lparr>Patient.id = ''P1'', name = ''Ann Lee'', email = ''ann@example.com'',
     date_of_birth = 0, insurance_id = ''INS12345'', phone = None\<rparr>"

definition ex_claim :: "string \<Rightarrow> string \<Rightarrow> pyfloat \<Rightarrow> Claim" where
  "ex_claim cid pid amt = \<lparr>Claim.id = cid, patient_id = pid, provider_id = ''PR1'', amount = amt,
     description = ''Annual checkup'', date_of_service = 0, status = PENDING,
     created_at = Some 0, updated_at = Some 0\<rparr>"

definition ex_heap :: "ref \<Rightarrow> Claim" where
  "ex_heap = (\<lambda>_. ex_claim ''C0'' ''P1'' (Fin 1))
     (0 := ex_claim ''C1'' ''P1'' (Fin 75), 1 := ex_claim ''C2'' ''P1'' (Fin 500),
      2 := ex_claim ''C3'' ''P1'' (Fin 15000), 3 := ex_claim ''C1'' ''P2'' (Fin 60000),
      4 := ex_claim ''C4'' ''P2'' (Fin 60000), 5 := ex_claim ''C5'' ''P1'' (Fin 60000),
      6 := ex_claim ''C6'' ''P1'' NaN)"

definition ex_engine :: ClaimProcessor where
  "ex_engine = snd (register_patient ex_patient (ClaimProcessor_init ex_heap))"

definition ex_engine3 :: ClaimProcessor where
  "ex_engine3 = snd (submit_claim 3 2 (snd (submit_claim 2 1 (snd (submit_claim 1 0 ex_engine)))))"


text \<open>A sequence of calls on a new engine.\<close>

definition ex_calls :: "engine_op list" where
  "ex_calls = [Register_patient ex_patient, Submit_claim 1 0, Submit_claim 2 1,
     Submit_claim 3 5, Approve_claim 4 ''C2'']"



section \<open>Bounds on stored amounts\<close>

text \<open>
  The two guards on the amount, as the code tests them: no stored claim is above the
  ceiling, and no stored claim has an amount of at most 0. The second holds when
  every submitted object passed the guard of \<open>Claim_post_init\<close>.
\<close>

definition none_above_ceiling :: "ClaimProcessor \<Rightarrow> bool" where
  "none_above_ceiling self \<longleftrightarrow>
     (\<forall>(k, r) \<in> set (claims self). \<not> amount (heap self r) > max_claim_amount self)"

definition none_at_most_zero :: "ClaimProcessor \<Rightarrow> bool" where
  "none_at_most_zero self \<longleftrightarrow>
     (\<forall>(k, r) \<in> set (claims self). \<not> amount (heap self r) \<le> Fin 0)"

fun submits_amount_checked :: "ClaimProcessor \<Rightarrow> engine_op \<Rightarrow> bool" where
  "submits_amount_checked self (Submit_claim now r) = (\<not> amount (heap self r) \<le> Fin 0)"
| "submits_amount_checked self _ = True"

section \<open>The total of approved amounts, as the specification words it\<close>




section \<open>The shape \<open>local@domain.tld\<close>, as the specification words it\<close>

text \<open>
  Three non-empty parts without \<open>@\<close>, the first two separated by \<open>@\<close> and the last
  two by a dot.
\<close>

definition spec_local_at_domain_tld :: "string \<Rightarrow> bool" where
  "spec_local_at_domain_tld s \<longleftrightarrow>
     (\<exists>local domain tld.
        s = local @ ''@'' @ domain @ ''.'' @ tld
        \<and> local \<noteq> [] \<and> domain \<noteq> [] \<and> tld \<noteq> []
        \<and> CHR ''@'' \<notin> set local \<union> set domain \<union> set tld)"

section \<open>Sequences of calls on the authentication service\<close>

datatype auth_op =
    Register_user datetime string string string UserType
  | Create_session string string
  | Logout string

fun auth_step :: "auth_op \<Rightarrow> AuthenticationService \<Rightarrow> AuthenticationService" where
  "auth_step (Register_user now uid e pw ut) self = snd (register_user now uid e pw ut self)"
| "auth_step (Create_session token uid) self = snd (create_session token uid self)"
| "auth_step (Logout token) self = snd (logout token self)"

definition run_auth :: "auth_op list \<Rightarrow> AuthenticationService \<Rightarrow> AuthenticationService" where
  "run_auth ops self = fold auth_step ops self"

text \<open>
  Whether a call is \<open>logout(token)\<close>, and whether it is a \<open>create_session\<close> in which
  the random generator returned \<open>token\<close>.
\<close>

fun is_logout_of :: "string \<Rightarrow> auth_op \<Rightarrow> bool" where
  "is_logout_of token (Logout t) = (t = token)"
| "is_logout_of token _ = False"

fun draws_token :: "string \<Rightarrow> auth_op \<Rightarrow> bool" where
  "draws_token token (Create_session t uid) = (t = token)"
| "draws_token token _ = False"

text \<open>A service with one registered user.\<close>

definition ex_auth :: AuthenticationService where
  "ex_auth = snd (register_user 1 ''U1'' ''ann@example.com'' ''password123'' PATIENT
     AuthenticationService_init)"

section \<open>Lemmas about the dictionaries and the invariant\<close>

lemma update_fresh: "map_of al k = None \<Longrightarrow> AList.update k v al = al @ [(k, v)]"
  by (induction al) (auto split: if_splits)

lemma well_formed_init: "well_formed (ClaimProcessor_init h)"
  by (simp add: well_formed_def ClaimProcessor_init_def)

lemma well_formed_register_patient:
  "well_formed self \<Longrightarrow> well_formed (snd (register_patient p self))"
  by (simp add: well_formed_def register_patient_def distinct_update)

lemma well_formed_submit_claim:
  assumes wf: "well_formed self"
  shows "well_formed (snd (submit_claim now r self))"
proof (cases "fst (submit_claim now r self) = Inr True")
  case False
  then have "snd (submit_claim now r self) = self"
    by (simp add: submit_claim_def Let_def split: if_splits)
  with wf show ?thesis by simp
next
  case True
  from True have fresh: "map_of (claims self) (Claim.id (heap self r)) = None"
    by (simp add: submit_claim_def Let_def split: if_splits)
  with True have "snd (submit_claim now r self) =
      process_claim now r (self\<lparr>claims := claims self @ [(Claim.id (heap self r), r)]\<rparr>)"
    by (simp add: submit_claim_def Let_def update_fresh split: if_splits)
  moreover from fresh have "Claim.id (heap self r) \<notin> fst ` set (claims self)"
    by (simp add: map_of_eq_None_iff)
  ultimately show ?thesis
    using wf by (auto simp: well_formed_def process_claim_def Let_def)
qed

lemma well_formed_approve_claim:
  "well_formed self \<Longrightarrow> well_formed (snd (approve_claim now cid self))"
  by (auto simp: well_formed_def approve_claim_def split: option.splits)

lemma well_formed_reject_claim:
  "well_formed self \<Longrightarrow> well_formed (snd (reject_claim now cid reason self))"
  by (auto simp: well_formed_def reject_claim_def split: option.splits)

lemma well_formed_engine_step: "well_formed self \<Longrightarrow> well_formed (engine_step op self)"
  by (cases op)
     (simp_all add: well_formed_register_patient well_formed_submit_claim
        well_formed_approve_claim well_formed_reject_claim)

lemma well_formed_run_engine: "well_formed self \<Longrightarrow> well_formed (run_engine ops self)"
  unfolding run_engine_def
  by (induction ops arbitrary: self) (simp_all add: well_formed_engine_step)

text \<open>
  A caller may build or change any \<open>Claim\<close> object that the engine does not hold.
\<close>

lemma well_formed_new_object:
  "well_formed self \<Longrightarrow> r \<notin> snd ` set (claims self) \<Longrightarrow>
   well_formed (self\<lparr>heap := (heap self)(r := c)\<rparr>)"
  by (force simp: well_formed_def)

lemma well_formed_unique_id:
  "well_formed self \<Longrightarrow> map_of (claims self) k = Some r \<Longrightarrow>
   map_of (claims self) k' = Some r \<Longrightarrow> k' = k"
proof -
  assume wf: "well_formed self" and k: "map_of (claims self) k = Some r"
    and k': "map_of (claims self) k' = Some r"
  from k have "(k, r) \<in> set (claims self)" by (rule map_of_SomeD)
  with wf have "Claim.id (heap self r) = k" by (auto simp: well_formed_def)
  moreover from k' have "(k', r) \<in> set (claims self)" by (rule map_of_SomeD)
  with wf have "Claim.id (heap self r) = k'" by (auto simp: well_formed_def)
  ultimately show "k' = k" by simp
qed

lemma decision_keeps_terminal:
  assumes "is_decision op" "status (heap self r) \<in> {APPROVED, REJECTED}"
  shows "status (heap (engine_step op self) r) = status (heap self r)"
  using assms
  by (cases op) (auto simp: approve_claim_def reject_claim_def split: option.splits)

lemma decisions_keep_terminal:
  assumes "\<forall>op \<in> set ops. is_decision op" "status (heap self r) \<in> {APPROVED, REJECTED}"
  shows "status (heap (run_engine ops self) r) = status (heap self r)"
  using assms unfolding run_engine_def
proof (induction ops arbitrary: self)
  case Nil
  then show ?case by simp
next
  case (Cons op ops)
  have keep: "status (heap (engine_step op self) r) = status (heap self r)"
    using Cons.prems by (simp add: decision_keeps_terminal)
  with Cons.prems have "status (heap (engine_step op self) r) \<in> {APPROVED, REJECTED}"
    by simp
  with Cons.IH [of "engine_step op self"] Cons.prems keep show ?case
    by simp
qed

lemma decision_keeps_claims:
  "is_decision op \<Longrightarrow> claims (engine_step op self) = claims self"
  by (cases op) (auto simp: approve_claim_def reject_claim_def split: option.splits)

lemma decisions_keep_claims:
  "\<forall>op \<in> set ops. is_decision op \<Longrightarrow> claims (run_engine ops self) = claims self"
  unfolding run_engine_def
  by (induction ops arbitrary: self) (simp_all add: decision_keeps_claims)

subsection \<open>The concrete engine, evaluated\<close>

lemma ex_engine_eq:
  "ex_engine = \<lparr>heap = ex_heap, claims = [], patients = [(''P1'', ex_patient)],
     auto_approve_threshold = Fin 100, max_claim_amount = Fin 50000\<rparr>"
  by (simp add: ex_engine_def register_patient_def ClaimProcessor_init_def ex_patient_def)

lemma ex_engine3_eq:
  "ex_engine3 = \<lparr>heap = ex_heap
       (0 := (ex_claim ''C1'' ''P1'' (Fin 75))\<lparr>status := APPROVED, updated_at := Some 1\<rparr>,
        1 := (ex_claim ''C2'' ''P1'' (Fin 500))\<lparr>status := PROCESSING, updated_at := Some 2\<rparr>,
        2 := (ex_claim ''C3'' ''P1'' (Fin 15000))\<lparr>status := REQUIRES_REVIEW, updated_at := Some 3\<rparr>),
     claims = [(''C1'', 0), (''C2'', 1), (''C3'', 2)], patients = [(''P1'', ex_patient)],
     auto_approve_threshold = Fin 100, max_claim_amount = Fin 50000\<rparr>"
  by (simp add: ex_engine3_def ex_engine_eq submit_claim_def process_claim_def Let_def
        ex_heap_def ex_claim_def)


lemma ex_calls_claims:
  "claims (run_engine ex_calls (ClaimProcessor_init ex_heap)) = [(''C1'', 0), (''C2'', 1)]"
  by (simp add: ex_calls_def run_engine_def register_patient_def submit_claim_def
        process_claim_def approve_claim_def Let_def ClaimProcessor_init_def ex_heap_def
        ex_claim_def ex_patient_def)

lemma ex_auth_eq:
  "ex_auth = \<lparr>users = [(''U1'', \<lparr>u_email = ''ann@example.com'', u_password = ''password123'',
       u_user_type = PATIENT, u_created_at = 1, u_is_active = True\<rparr>)],
     active_sessions = []\<rparr>"
  by (simp add: ex_auth_def register_user_def AuthenticationService_init_def
        re_match_email_def dollar_def)

subsection \<open>Amounts\<close>

lemma pyfloat_not_le_zero: "a \<noteq> NaN \<Longrightarrow> \<not> a \<le> Fin 0 \<Longrightarrow> Fin 0 < a"
  by (cases a) auto

lemma pyfloat_not_above: "a \<noteq> NaN \<Longrightarrow> m \<noteq> NaN \<Longrightarrow> \<not> a > m \<Longrightarrow> a \<le> m"
  by (cases a; cases m) auto

lemma Claim_post_init_amount:
  "Claim_post_init t1 t2 c = Inr c' \<Longrightarrow> \<not> amount c' \<le> Fin 0 \<and> amount c' = amount c"
  by (auto simp: Claim_post_init_def Let_def split: if_splits)

lemma engine_step_amount: "amount (heap (engine_step op self) r) = amount (heap self r)"
  by (cases op)
     (auto simp: register_patient_def submit_claim_def process_claim_def approve_claim_def
        reject_claim_def Let_def split: option.splits)

lemma engine_step_max: "max_claim_amount (engine_step op self) = max_claim_amount self"
  by (cases op)
     (auto simp: register_patient_def submit_claim_def process_claim_def approve_claim_def
        reject_claim_def Let_def split: option.splits)

lemma engine_step_threshold:
  "auto_approve_threshold (engine_step op self) = auto_approve_threshold self"
  by (cases op)
     (auto simp: register_patient_def submit_claim_def process_claim_def approve_claim_def
        reject_claim_def Let_def split: option.splits)

lemma run_engine_thresholds:
  "auto_approve_threshold (run_engine ops self) = auto_approve_threshold self
   \<and> max_claim_amount (run_engine ops self) = max_claim_amount self"
  unfolding run_engine_def
  by (induction ops arbitrary: self) (simp_all add: engine_step_threshold engine_step_max)

lemma engine_step_claims:
  "claims (engine_step op self) = claims self
   \<or> (\<exists>now r. op = Submit_claim now r \<and> \<not> amount (heap self r) > max_claim_amount self
        \<and> claims (engine_step op self) = claims self @ [(Claim.id (heap self r), r)])"
proof (cases op)
  case (Submit_claim now r)
  show ?thesis
  proof (cases "fst (submit_claim now r self) = Inr True")
    case True
    then have "map_of (claims self) (Claim.id (heap self r)) = None"
      and "\<not> amount (heap self r) > max_claim_amount self"
      by (simp_all add: submit_claim_def Let_def split: if_splits)
    then show ?thesis
      using Submit_claim True
      by (simp add: submit_claim_def process_claim_def Let_def update_fresh split: if_splits)
  next
    case False
    then show ?thesis
      using Submit_claim by (simp add: submit_claim_def Let_def split: if_splits)
  qed
qed (auto simp: register_patient_def approve_claim_def reject_claim_def split: option.splits)

lemma run_engine_amount: "amount (heap (run_engine ops self) r) = amount (heap self r)"
  unfolding run_engine_def
  by (induction ops arbitrary: self) (simp_all add: engine_step_amount)

lemma none_above_ceiling_step:
  assumes "none_above_ceiling self"
  shows "none_above_ceiling (engine_step op self)"
  using assms engine_step_claims [of op self]
  by (auto simp: none_above_ceiling_def engine_step_amount engine_step_max)

lemma none_above_ceiling_run:
  "none_above_ceiling self \<Longrightarrow> none_above_ceiling (run_engine ops self)"
  unfolding run_engine_def
  by (induction ops arbitrary: self) (simp_all add: none_above_ceiling_step)

lemma none_at_most_zero_step:
  assumes "none_at_most_zero self" "submits_amount_checked self op"
  shows "none_at_most_zero (engine_step op self)"
  using assms engine_step_claims [of op self]
  by (auto simp: none_at_most_zero_def engine_step_amount)

lemma submits_amount_checked_step:
  "submits_amount_checked (engine_step op self) op' = submits_amount_checked self op'"
  by (cases op') (simp_all add: engine_step_amount)

lemma none_at_most_zero_run:
  assumes "none_at_most_zero self" "\<forall>op \<in> set ops. submits_amount_checked self op"
  shows "none_at_most_zero (run_engine ops self)"
  using assms unfolding run_engine_def
proof (induction ops arbitrary: self)
  case Nil
  then show ?case by simp
next
  case (Cons op ops)
  from Cons.prems have "none_at_most_zero (engine_step op self)"
    by (simp add: none_at_most_zero_step)
  moreover from Cons.prems
  have "\<forall>op' \<in> set ops. submits_amount_checked (engine_step op self) op'"
    by (simp add: submits_amount_checked_step)
  ultimately show ?case using Cons.IH by simp
qed

subsection \<open>The values of a dictionary, found by key\<close>


subsection \<open>Sessions\<close>

lemma auth_step_keeps_session:
  assumes "\<not> is_logout_of token op" "\<not> draws_token token op"
  shows "validate_session token (auth_step op self) = validate_session token self"
  using assms
  by (cases op)
     (auto simp: validate_session_def register_user_def create_session_def logout_def
        update_conv' delete_conv')

lemma run_auth_keeps_session:
  assumes "\<forall>op \<in> set ops. \<not> is_logout_of token op \<and> \<not> draws_token token op"
  shows "validate_session token (run_auth ops self) = validate_session token self"
  using assms unfolding run_auth_def
  by (induction ops arbitrary: self) (simp_all add: auth_step_keeps_session)

subsection \<open>What the regular expression accepts\<close>

text \<open>
  The final newline that \<open>$\<close> tolerates is itself a character other than \<open>@\<close>, so it
  adds no string to those the pattern accepts.
\<close>

lemma not_at_plus_iff:
  "not_at_plus k s \<longleftrightarrow> (\<exists>u v. s = u @ v \<and> u \<noteq> [] \<and> CHR ''@'' \<notin> set u \<and> k v)"
proof (induction s)
  case Nil
  then show ?case by simp
next
  case (Cons c cs)
  show ?case
  proof
    assume "not_at_plus k (c # cs)"
    then have c: "c \<noteq> CHR ''@''" and "k cs \<or> not_at_plus k cs" by simp_all
    then consider "k cs" | "not_at_plus k cs" by blast
    then show "\<exists>u v. c # cs = u @ v \<and> u \<noteq> [] \<and> CHR ''@'' \<notin> set u \<and> k v"
    proof cases
      case 1
      with c have "c # cs = [c] @ cs \<and> [c] \<noteq> [] \<and> CHR ''@'' \<notin> set [c] \<and> k cs"
        by auto
      then show ?thesis by blast
    next
      case 2
      with Cons.IH obtain u v where "cs = u @ v" "u \<noteq> []" "CHR ''@'' \<notin> set u" "k v"
        by blast
      with c have "c # cs = (c # u) @ v \<and> c # u \<noteq> [] \<and> CHR ''@'' \<notin> set (c # u) \<and> k v"
        by auto
      then show ?thesis by blast
    qed
  next
    assume "\<exists>u v. c # cs = u @ v \<and> u \<noteq> [] \<and> CHR ''@'' \<notin> set u \<and> k v"
    then obtain u v where uv: "c # cs = u @ v" "u \<noteq> []" "CHR ''@'' \<notin> set u" "k v"
      by blast
    then obtain u' where u: "u = c # u'" "cs = u' @ v"
      by (cases u) auto
    show "not_at_plus k (c # cs)"
    proof (cases "u' = []")
      case True
      with u uv show ?thesis by auto
    next
      case False
      with u uv have "\<exists>u v. cs = u @ v \<and> u \<noteq> [] \<and> CHR ''@'' \<notin> set u \<and> k v"
        by auto
      with Cons.IH u uv show ?thesis by auto
    qed
  qed
qed

lemma literal_iff: "literal a k s \<longleftrightarrow> (\<exists>v. s = a # v \<and> k v)"
  by (cases s) auto

lemma not_at_plus_dollar: "not_at_plus dollar s \<longleftrightarrow> s \<noteq> [] \<and> CHR ''@'' \<notin> set s"
proof
  assume "not_at_plus dollar s"
  then obtain u v where "s = u @ v" "u \<noteq> []" "CHR ''@'' \<notin> set u" "dollar v"
    unfolding not_at_plus_iff by blast
  then show "s \<noteq> [] \<and> CHR ''@'' \<notin> set s"
    by (auto simp: dollar_def)
next
  assume "s \<noteq> [] \<and> CHR ''@'' \<notin> set s"
  then have "s = s @ [] \<and> s \<noteq> [] \<and> CHR ''@'' \<notin> set s \<and> dollar []"
    by (simp add: dollar_def)
  then show "not_at_plus dollar s"
    unfolding not_at_plus_iff by blast
qed

lemma re_match_email_iff: "re_match_email s \<longleftrightarrow> spec_local_at_domain_tld s"
proof
  assume "re_match_email s"
  then obtain l v where l: "s = l @ v" "l \<noteq> []" "CHR ''@'' \<notin> set l"
    and "literal CHR ''@'' (not_at_plus (literal CHR ''.'' (not_at_plus dollar))) v"
    unfolding re_match_email_def not_at_plus_iff [of "literal CHR ''@'' _"] by blast
  then obtain w where w: "v = CHR ''@'' # w"
    and "not_at_plus (literal CHR ''.'' (not_at_plus dollar)) w"
    unfolding literal_iff by blast
  then obtain d x where d: "w = d @ x" "d \<noteq> []" "CHR ''@'' \<notin> set d"
    and "literal CHR ''.'' (not_at_plus dollar) x"
    unfolding not_at_plus_iff [of "literal CHR ''.'' _"] by blast
  then obtain t where t: "x = CHR ''.'' # t" "t \<noteq> []" "CHR ''@'' \<notin> set t"
    unfolding literal_iff not_at_plus_dollar by blast
  from l w d t have "s = l @ ''@'' @ d @ ''.'' @ t" by simp
  with l d t show "spec_local_at_domain_tld s"
    unfolding spec_local_at_domain_tld_def by blast
next
  assume "spec_local_at_domain_tld s"
  then obtain l d t where s: "s = l @ ''@'' @ d @ ''.'' @ t"
    and l: "l \<noteq> []" "CHR ''@'' \<notin> set l"
    and d: "d \<noteq> []" "CHR ''@'' \<notin> set d"
    and t: "t \<noteq> []" "CHR ''@'' \<notin> set t"
    unfolding spec_local_at_domain_tld_def by blast
  from t have "literal CHR ''.'' (not_at_plus dollar) (CHR ''.'' # t)"
    by (simp add: not_at_plus_dollar)
  with d have "not_at_plus (literal CHR ''.'' (not_at_plus dollar)) (d @ CHR ''.'' # t)"
    unfolding not_at_plus_iff [of "literal CHR ''.'' _"] by blast
  then have "literal CHR ''@'' (not_at_plus (literal CHR ''.'' (not_at_plus dollar)))
      (CHR ''@'' # d @ CHR ''.'' # t)"
    by simp
  with l have "not_at_plus (literal CHR ''@'' (not_at_plus (literal CHR ''.'' (not_at_plus dollar))))
      (l @ CHR ''@'' # d @ CHR ''.'' # t)"
    unfolding not_at_plus_iff [of "literal CHR ''@'' _"] by blast
  with s show "re_match_email s"
    by (simp add: re_match_email_def)
qed

section \<open>The claims\<close>

text \<open>
  C1. Whenever \<open>submit_claim\<close> returns true, the status of the submitted claim right
  after the call is the one the auto-decision rule gives, tried in this order:
  \<open>approved\<close> if the amount is at most \<open>auto_approve_threshold\<close>, else
  \<open>requires_review\<close> if the amount is above 10000, else \<open>processing\<close>. So the status
  is never \<open>pending\<close>; \<open>updated_at\<close> is the time of the call, and \<open>get_claim\<close> finds
  the claim under its identifier. The threshold is 100 in a new engine and after every
  sequence of calls on it.
\<close>

theorem submit_claim_auto_decision:
  assumes "submit_claim now r self = (Inr True, self')"
  shows "status (heap self' r) =
           (if amount (heap self r) \<le> auto_approve_threshold self then APPROVED
            else if amount (heap self r) > Fin 10000 then REQUIRES_REVIEW
            else PROCESSING)
       \<and> status (heap self' r) \<noteq> PENDING
       \<and> updated_at (heap self' r) = Some now
       \<and> get_claim (Claim.id (heap self r)) self' = Some (heap self' r)
       \<and> auto_approve_threshold (run_engine ops (ClaimProcessor_init h)) = Fin 100"
proof -
  have "auto_approve_threshold (run_engine ops (ClaimProcessor_init h)) = Fin 100"
    by (simp add: run_engine_thresholds ClaimProcessor_init_def)
  with assms show ?thesis
    by (auto simp: submit_claim_def process_claim_def get_claim_def Let_def update_conv'
             split: if_splits)
qed

theorem submit_claim_auto_decision_witness:
  "submit_claim 1 0 ex_engine = (Inr True, snd (submit_claim 1 0 ex_engine))
   \<and> status (heap (snd (submit_claim 1 0 ex_engine)) 0) = APPROVED"
proof -
  have h: "submit_claim 1 0 ex_engine = (Inr True, snd (submit_claim 1 0 ex_engine))"
    by (simp add: ex_engine_eq submit_claim_def Let_def ex_heap_def ex_claim_def)
  from submit_claim_auto_decision [OF h] have
    "status (heap (snd (submit_claim 1 0 ex_engine)) 0) =
       (if amount (heap ex_engine 0) \<le> auto_approve_threshold ex_engine then APPROVED
        else if amount (heap ex_engine 0) > Fin 10000 then REQUIRES_REVIEW else PROCESSING)"
    by simp
  then have "status (heap (snd (submit_claim 1 0 ex_engine)) 0) = APPROVED"
    by (simp add: ex_engine_eq ex_heap_def ex_claim_def)
  with h show ?thesis by simp
qed

text \<open>
  C2, as amended. For a claim whose identifier is not stored yet: if its
  \<open>patient_id\<close> is not registered, \<open>submit_claim\<close> raises "Patient not found" (the
  spec's \<open>ReferentialError\<close>); if the patient is registered and the amount exceeds
  \<open>max_claim_amount\<close>, it raises "Claim amount exceeds maximum limit" (the spec's
  \<open>LimitExceededError\<close>). In both cases the engine, and so its claims dictionary, is
  exactly as before. The ceiling is 50000 in a new engine and after every sequence of
  calls on it.
\<close>

theorem submit_claim_errors:
  assumes "map_of (claims self) (Claim.id (heap self r)) = None"
  shows "(map_of (patients self) (patient_id (heap self r)) = None \<longrightarrow>
            submit_claim now r self = (Inl Patient_not_found, self))
       \<and> (map_of (patients self) (patient_id (heap self r)) \<noteq> None
            \<and> amount (heap self r) > max_claim_amount self \<longrightarrow>
            submit_claim now r self =
              (Inl (Claim_amount_exceeds_maximum_limit (max_claim_amount self)), self))
       \<and> max_claim_amount (run_engine ops (ClaimProcessor_init h)) = Fin 50000"
  using assms
  by (simp add: submit_claim_def Let_def run_engine_thresholds ClaimProcessor_init_def)

theorem submit_claim_errors_witness:
  "map_of (claims ex_engine3) (Claim.id (heap ex_engine3 4)) = None
   \<and> submit_claim 9 4 ex_engine3 = (Inl Patient_not_found, ex_engine3)
   \<and> submit_claim 9 5 ex_engine3 = (Inl (Claim_amount_exceeds_maximum_limit (Fin 50000)), ex_engine3)"
proof -
  have h4: "map_of (claims ex_engine3) (Claim.id (heap ex_engine3 4)) = None"
    by (simp add: ex_engine3_eq ex_heap_def ex_claim_def)
  have h5: "map_of (claims ex_engine3) (Claim.id (heap ex_engine3 5)) = None"
    by (simp add: ex_engine3_eq ex_heap_def ex_claim_def)
  have p4: "map_of (patients ex_engine3) (patient_id (heap ex_engine3 4)) = None"
    by (simp add: ex_engine3_eq ex_heap_def ex_claim_def)
  have p5: "map_of (patients ex_engine3) (patient_id (heap ex_engine3 5)) \<noteq> None
      \<and> amount (heap ex_engine3 5) > max_claim_amount ex_engine3"
    by (simp add: ex_engine3_eq ex_heap_def ex_claim_def)
  have m: "max_claim_amount ex_engine3 = Fin 50000"
    by (simp add: ex_engine3_eq)
  from submit_claim_errors [OF h4, of 9] p4
  have "submit_claim 9 4 ex_engine3 = (Inl Patient_not_found, ex_engine3)" by blast
  moreover from submit_claim_errors [OF h5, of 9] p5 m
  have "submit_claim 9 5 ex_engine3 = (Inl (Claim_amount_exceeds_maximum_limit (Fin 50000)), ex_engine3)"
    by simp
  ultimately show ?thesis using h4 by simp
qed

text \<open>
  C2 as stated fails: with \<open>C1\<close> stored, submitting another object with identifier
  \<open>C1\<close>, an unregistered patient and an amount of 60000 returns false and raises
  nothing; and a claim of 60000 with a new identifier for an unregistered patient
  raises "Patient not found", not the limit error.
\<close>

theorem submit_claim_errors_counterexample:
  "map_of (patients ex_engine3) (patient_id (heap ex_engine3 3)) = None
   \<and> amount (heap ex_engine3 3) > max_claim_amount ex_engine3
   \<and> submit_claim 9 3 ex_engine3 = (Inr False, ex_engine3)
   \<and> amount (heap ex_engine3 4) > max_claim_amount ex_engine3
   \<and> submit_claim 9 4 ex_engine3 = (Inl Patient_not_found, ex_engine3)"
  by (simp add: ex_engine3_eq submit_claim_def Let_def ex_heap_def ex_claim_def)

text \<open>
  C3. If no claim is stored under the identifier, or the stored claim is \<open>approved\<close>
  or \<open>rejected\<close>, then \<open>approve_claim\<close> and \<open>reject_claim\<close> return false and leave
  the whole state as it was. Otherwise they return true and change exactly the status
  (to \<open>approved\<close>, respectively \<open>rejected\<close>) and \<open>updated_at\<close> (to the time of the
  call) of that claim. \<open>approved\<close> and \<open>rejected\<close> are absorbing: after any sequence
  of \<open>approve_claim\<close> and \<open>reject_claim\<close> calls, on any identifiers, a claim that was
  in one of them has the same status and is still found under its identifier.
\<close>

theorem approve_reject_transitions:
  "(map_of (claims self) cid = None
      \<or> (\<exists>r. map_of (claims self) cid = Some r \<and> status (heap self r) \<in> {APPROVED, REJECTED})
    \<longrightarrow> approve_claim now cid self = (False, self)
      \<and> reject_claim now cid reason self = (False, self))
 \<and> (map_of (claims self) cid = Some r \<and> status (heap self r) \<notin> {APPROVED, REJECTED}
    \<longrightarrow> approve_claim now cid self =
          (True, self\<lparr>heap := (heap self)
             (r := (heap self r)\<lparr>status := APPROVED, updated_at := Some now\<rparr>)\<rparr>)
      \<and> reject_claim now cid reason self =
          (True, self\<lparr>heap := (heap self)
             (r := (heap self r)\<lparr>status := REJECTED, updated_at := Some now\<rparr>)\<rparr>))
 \<and> (map_of (claims self) cid = Some r \<and> status (heap self r) \<in> {APPROVED, REJECTED}
      \<and> (\<forall>op \<in> set ops. is_decision op)
    \<longrightarrow> get_claim cid (run_engine ops self) = Some (heap (run_engine ops self) r)
      \<and> status (heap (run_engine ops self) r) = status (heap self r))"
proof (intro conjI impI)
  assume "map_of (claims self) cid = None
      \<or> (\<exists>r. map_of (claims self) cid = Some r \<and> status (heap self r) \<in> {APPROVED, REJECTED})"
  then show "approve_claim now cid self = (False, self)"
    and "reject_claim now cid reason self = (False, self)"
    by (auto simp: approve_claim_def reject_claim_def)
next
  assume "map_of (claims self) cid = Some r \<and> status (heap self r) \<notin> {APPROVED, REJECTED}"
  then show "approve_claim now cid self =
          (True, self\<lparr>heap := (heap self)
             (r := (heap self r)\<lparr>status := APPROVED, updated_at := Some now\<rparr>)\<rparr>)"
    and "reject_claim now cid reason self =
          (True, self\<lparr>heap := (heap self)
             (r := (heap self r)\<lparr>status := REJECTED, updated_at := Some now\<rparr>)\<rparr>)"
    by (auto simp: approve_claim_def reject_claim_def)
next
  assume a: "map_of (claims self) cid = Some r \<and> status (heap self r) \<in> {APPROVED, REJECTED}
      \<and> (\<forall>op \<in> set ops. is_decision op)"
  then show "get_claim cid (run_engine ops self) = Some (heap (run_engine ops self) r)"
    by (simp add: get_claim_def decisions_keep_claims)
  from a show "status (heap (run_engine ops self) r) = status (heap self r)"
    by (simp add: decisions_keep_terminal)
qed

theorem approve_reject_transitions_witness:
  "map_of (claims ex_engine3) ''C2'' = Some 1
   \<and> status (heap ex_engine3 1) \<notin> {APPROVED, REJECTED}
   \<and> fst (approve_claim 7 ''C2'' ex_engine3) = True
   \<and> status (heap (snd (approve_claim 7 ''C2'' ex_engine3)) 1) = APPROVED
   \<and> map_of (claims ex_engine3) ''C1'' = Some 0
   \<and> status (heap ex_engine3 0) \<in> {APPROVED, REJECTED}
   \<and> reject_claim 7 ''C1'' ''late'' ex_engine3 = (False, ex_engine3)
   \<and> status (heap (run_engine [Reject_claim 7 ''C1'' ''late'', Approve_claim 8 ''C2'']
        ex_engine3) 0) = APPROVED"
proof -
  have c2: "map_of (claims ex_engine3) ''C2'' = Some 1
      \<and> status (heap ex_engine3 1) \<notin> {APPROVED, REJECTED}"
    by (simp add: ex_engine3_eq ex_claim_def)
  have c1: "map_of (claims ex_engine3) ''C1'' = Some 0
      \<and> status (heap ex_engine3 0) \<in> {APPROVED, REJECTED}"
    by (simp add: ex_engine3_eq ex_claim_def)
  have ops: "\<forall>op \<in> set [Reject_claim 7 ''C1'' ''late'', Approve_claim 8 ''C2'']. is_decision op"
    by simp
  have st: "status (heap ex_engine3 0) = APPROVED"
    by (simp add: ex_engine3_eq ex_claim_def)
  note t2 = approve_reject_transitions [where self = ex_engine3 and cid = "''C2''" and r = 1
      and now = 7 and reason = "''late''" and ops = "[]"]
  note t1 = approve_reject_transitions [where self = ex_engine3 and cid = "''C1''" and r = 0
      and now = 7 and reason = "''late''"
      and ops = "[Reject_claim 7 ''C1'' ''late'', Approve_claim 8 ''C2'']"]
  from t2 c2 have a: "approve_claim 7 ''C2'' ex_engine3 =
      (True, ex_engine3\<lparr>heap := (heap ex_engine3)
         (1 := (heap ex_engine3 1)\<lparr>status := APPROVED, updated_at := Some 7\<rparr>)\<rparr>)"
    by blast
  from t1 c1 have b: "reject_claim 7 ''C1'' ''late'' ex_engine3 = (False, ex_engine3)"
    by blast
  from t1 c1 ops st have c: "status (heap (run_engine
      [Reject_claim 7 ''C1'' ''late'', Approve_claim 8 ''C2''] ex_engine3) 0) = APPROVED"
    by simp
  from a b c c1 c2 show ?thesis by simp
qed

text \<open>
  C4, as amended. A \<open>Claim\<close> whose construction succeeds has an amount above 0,
  unless the amount is NaN; construction does not look at the ceiling. The ceiling is
  enforced by \<open>submit_claim\<close>: a claim that it accepts has an amount of at most
  \<open>max_claim_amount\<close>, unless the amount is NaN. So after every sequence of calls on a
  new engine, every stored claim whose amount is not NaN has an amount of at most
  50000, and an amount above 0 if every submitted object passed the guard of the
  constructor; the ceiling stays 50000. What happens to an amount of NaN is left open.
\<close>

theorem claim_amount_bounds:
  "(Claim_post_init t1 t2 c = Inr c' \<and> amount c' \<noteq> NaN \<longrightarrow> Fin 0 < amount c')
 \<and> (fst (submit_claim now r self) = Inr True \<and> amount (heap self r) \<noteq> NaN
      \<and> max_claim_amount self \<noteq> NaN \<longrightarrow>
      amount (heap (snd (submit_claim now r self)) r) \<le> max_claim_amount self)
 \<and> (map_of (claims (run_engine ops (ClaimProcessor_init h))) k = Some r'
      \<and> amount (heap (run_engine ops (ClaimProcessor_init h)) r') \<noteq> NaN \<longrightarrow>
      amount (heap (run_engine ops (ClaimProcessor_init h)) r') \<le> Fin 50000)
 \<and> ((\<forall>op \<in> set ops. submits_amount_checked (ClaimProcessor_init h) op)
      \<and> map_of (claims (run_engine ops (ClaimProcessor_init h))) k = Some r'
      \<and> amount (heap (run_engine ops (ClaimProcessor_init h)) r') \<noteq> NaN \<longrightarrow>
      Fin 0 < amount (heap (run_engine ops (ClaimProcessor_init h)) r'))
 \<and> max_claim_amount (run_engine ops (ClaimProcessor_init h)) = Fin 50000"
proof -
  let ?E = "run_engine ops (ClaimProcessor_init h)"
  have m: "max_claim_amount ?E = Fin 50000"
    by (simp add: run_engine_thresholds ClaimProcessor_init_def)
  have c1: "Claim_post_init t1 t2 c = Inr c' \<and> amount c' \<noteq> NaN \<longrightarrow> Fin 0 < amount c'"
    using Claim_post_init_amount [of t1 t2 c c'] pyfloat_not_le_zero [of "amount c'"]
    by blast
  have "fst (submit_claim now r self) = Inr True \<longrightarrow>
      \<not> amount (heap self r) > max_claim_amount self
      \<and> amount (heap (snd (submit_claim now r self)) r) = amount (heap self r)"
    by (simp add: submit_claim_def process_claim_def Let_def)
  then have c2: "fst (submit_claim now r self) = Inr True \<and> amount (heap self r) \<noteq> NaN
      \<and> max_claim_amount self \<noteq> NaN \<longrightarrow>
      amount (heap (snd (submit_claim now r self)) r) \<le> max_claim_amount self"
    using pyfloat_not_above [of "amount (heap self r)" "max_claim_amount self"]
    by auto
  have "none_above_ceiling (ClaimProcessor_init h)"
    by (simp add: none_above_ceiling_def ClaimProcessor_init_def)
  then have "none_above_ceiling ?E" by (rule none_above_ceiling_run)
  then have c3: "map_of (claims ?E) k = Some r' \<and> amount (heap ?E r') \<noteq> NaN \<longrightarrow>
      amount (heap ?E r') \<le> Fin 50000"
    using m by (auto simp: none_above_ceiling_def pyfloat_not_above dest!: map_of_SomeD)
  have "none_at_most_zero (ClaimProcessor_init h)"
    by (simp add: none_at_most_zero_def ClaimProcessor_init_def)
  then have "(\<forall>op \<in> set ops. submits_amount_checked (ClaimProcessor_init h) op) \<longrightarrow>
      none_at_most_zero ?E"
    by (simp add: none_at_most_zero_run)
  then have c4: "(\<forall>op \<in> set ops. submits_amount_checked (ClaimProcessor_init h) op)
      \<and> map_of (claims ?E) k = Some r' \<and> amount (heap ?E r') \<noteq> NaN \<longrightarrow>
      Fin 0 < amount (heap ?E r')"
    by (auto simp: none_at_most_zero_def pyfloat_not_le_zero dest!: map_of_SomeD)
  from c1 c2 c3 c4 m show ?thesis by blast
qed

theorem claim_amount_bounds_witness:
  "Claim_post_init 1 1 (ex_claim ''C1'' ''P1'' (Fin 75)) = Inr (ex_claim ''C1'' ''P1'' (Fin 75))
   \<and> Fin 0 < amount (ex_claim ''C1'' ''P1'' (Fin 75))
   \<and> fst (submit_claim 1 0 ex_engine) = Inr True
   \<and> amount (heap (snd (submit_claim 1 0 ex_engine)) 0) \<le> max_claim_amount ex_engine
   \<and> map_of (claims (run_engine ex_calls (ClaimProcessor_init ex_heap))) ''C2'' = Some 1
   \<and> Fin 0 < amount (heap (run_engine ex_calls (ClaimProcessor_init ex_heap)) 1)
   \<and> amount (heap (run_engine ex_calls (ClaimProcessor_init ex_heap)) 1) \<le> Fin 50000"
proof -
  let ?E = "run_engine ex_calls (ClaimProcessor_init ex_heap)"
  have c: "Claim_post_init 1 1 (ex_claim ''C1'' ''P1'' (Fin 75))
      = Inr (ex_claim ''C1'' ''P1'' (Fin 75))
      \<and> amount (ex_claim ''C1'' ''P1'' (Fin 75)) \<noteq> NaN"
    by (simp add: Claim_post_init_def ex_claim_def strip_def isspace_def)
  have s: "fst (submit_claim 1 0 ex_engine) = Inr True \<and> amount (heap ex_engine 0) \<noteq> NaN
      \<and> max_claim_amount ex_engine \<noteq> NaN"
    by (simp add: submit_claim_def Let_def ex_engine_eq ex_heap_def ex_claim_def)
  have p: "\<forall>op \<in> set ex_calls. submits_amount_checked (ClaimProcessor_init ex_heap) op"
    by (simp add: ex_calls_def ClaimProcessor_init_def ex_heap_def ex_claim_def)
  have k: "map_of (claims ?E) ''C2'' = Some 1"
    by (simp add: ex_calls_claims)
  have n: "amount (heap ?E 1) \<noteq> NaN"
    by (simp add: run_engine_amount ClaimProcessor_init_def ex_heap_def ex_claim_def)
  note t = claim_amount_bounds [where ?t1.0 = 1 and ?t2.0 = 1
      and c = "ex_claim ''C1'' ''P1'' (Fin 75)" and c' = "ex_claim ''C1'' ''P1'' (Fin 75)"
      and now = 1 and r = 0 and self = ex_engine and ops = ex_calls and h = ex_heap
      and k = "''C2''" and r' = 1]
  from t c have "Fin 0 < amount (ex_claim ''C1'' ''P1'' (Fin 75))" by blast
  moreover from t s
  have "amount (heap (snd (submit_claim 1 0 ex_engine)) 0) \<le> max_claim_amount ex_engine"
    by blast
  moreover from t k n have "amount (heap ?E 1) \<le> Fin 50000" by blast
  moreover from t p k n have "Fin 0 < amount (heap ?E 1)" by blast
  ultimately show ?thesis using c s k by blast
qed

text \<open>
  C4 as stated fails twice. Constructing a claim of 60000 succeeds, and 60000 is above
  the ceiling of a new engine. And a claim whose amount is NaN passes the guard
  \<open>amount <= 0\<close> of the constructor and the guard \<open>amount > max_claim_amount\<close> of
  \<open>submit_claim\<close>, since both comparisons are false: it is stored although its
  amount is neither above 0 nor at most the ceiling.
\<close>

theorem claim_amount_bounds_counterexample:
  "Claim_post_init 1 1 (ex_claim ''C5'' ''P1'' (Fin 60000))
     = Inr (ex_claim ''C5'' ''P1'' (Fin 60000))
   \<and> \<not> amount (ex_claim ''C5'' ''P1'' (Fin 60000))
         \<le> max_claim_amount (ClaimProcessor_init ex_heap)
   \<and> Claim_post_init 1 1 (ex_claim ''C6'' ''P1'' NaN) = Inr (ex_claim ''C6'' ''P1'' NaN)
   \<and> \<not> Fin 0 < amount (ex_claim ''C6'' ''P1'' NaN)
   \<and> fst (submit_claim 9 6 ex_engine) = Inr True
   \<and> map_of (claims (snd (submit_claim 9 6 ex_engine))) ''C6'' = Some 6
   \<and> \<not> Fin 0 < amount (heap (snd (submit_claim 9 6 ex_engine)) 6)
   \<and> \<not> amount (heap (snd (submit_claim 9 6 ex_engine)) 6)
         \<le> max_claim_amount (snd (submit_claim 9 6 ex_engine))"
  by (simp add: Claim_post_init_def ex_claim_def ClaimProcessor_init_def strip_def isspace_def
        submit_claim_def process_claim_def Let_def ex_engine_eq ex_heap_def)



text \<open>
  C6. If the patient's identifier is already registered, \<open>register_patient\<close> returns
  false and the engine (so the stored record too) is unchanged. If it is not,
  \<open>register_patient\<close> returns true, \<open>get_patient\<close> then finds the new patient
  under the identifier, and every other patient and all claims are as before.
\<close>

theorem register_patient_result:
  "(map_of (patients self) (Patient.id p) \<noteq> None \<longrightarrow>
      register_patient p self = (False, self))
 \<and> (map_of (patients self) (Patient.id p) = None \<longrightarrow>
      fst (register_patient p self) = True
    \<and> get_patient (Patient.id p) (snd (register_patient p self)) = Some p
    \<and> (\<forall>q. q \<noteq> Patient.id p \<longrightarrow>
          get_patient q (snd (register_patient p self)) = get_patient q self)
    \<and> claims (snd (register_patient p self)) = claims self
    \<and> heap (snd (register_patient p self)) = heap self)"
  by (simp add: register_patient_def get_patient_def update_conv')

theorem register_patient_result_witness:
  "map_of (patients ex_engine) (Patient.id ex_patient) \<noteq> None
   \<and> register_patient (ex_patient\<lparr>name := ''Bob Ray''\<rparr>) ex_engine = (False, ex_engine)
   \<and> get_patient ''P1'' ex_engine = Some ex_patient
   \<and> map_of (patients (ClaimProcessor_init ex_heap)) (Patient.id ex_patient) = None
   \<and> fst (register_patient ex_patient (ClaimProcessor_init ex_heap)) = True"
proof -
  have h: "map_of (patients ex_engine) (Patient.id (ex_patient\<lparr>name := ''Bob Ray''\<rparr>)) \<noteq> None"
    by (simp add: ex_engine_eq ex_patient_def)
  have h0: "map_of (patients (ClaimProcessor_init ex_heap)) (Patient.id ex_patient) = None"
    by (simp add: ClaimProcessor_init_def)
  from register_patient_result [of ex_engine "ex_patient\<lparr>name := ''Bob Ray''\<rparr>"] h
  have "register_patient (ex_patient\<lparr>name := ''Bob Ray''\<rparr>) ex_engine = (False, ex_engine)"
    by blast
  moreover from register_patient_result [of "ClaimProcessor_init ex_heap" ex_patient] h0
  have "fst (register_patient ex_patient (ClaimProcessor_init ex_heap)) = True"
    by blast
  moreover have "get_patient ''P1'' ex_engine = Some ex_patient"
    by (simp add: get_patient_def ex_engine_eq)
  ultimately show ?thesis using h h0 by simp
qed

text \<open>
  C7. \<open>create_session\<close> returns the token it drew, and that token validates to the
  user identifier after any sequence of later calls in which \<open>logout\<close> of the token
  does not occur and the random generator does not return the same token again.
  \<open>logout\<close> returns true exactly when the token is an active session; after it the
  token validates to none, every other token validates as before and the users are
  unchanged.
\<close>

theorem session_round_trip:
  "fst (create_session token user_id self) = token
 \<and> ((\<forall>op \<in> set ops. \<not> is_logout_of token op \<and> \<not> draws_token token op) \<longrightarrow>
      validate_session token (run_auth ops (snd (create_session token user_id self)))
        = Some user_id)
 \<and> fst (logout token self) = (validate_session token self \<noteq> None)
 \<and> validate_session token (snd (logout token self)) = None
 \<and> (\<forall>t. t \<noteq> token \<longrightarrow>
       validate_session t (snd (logout token self)) = validate_session t self)
 \<and> users (snd (logout token self)) = users self"
proof -
  have "validate_session token (snd (create_session token user_id self)) = Some user_id"
    by (simp add: validate_session_def create_session_def update_conv')
  then have "(\<forall>op \<in> set ops. \<not> is_logout_of token op \<and> \<not> draws_token token op) \<longrightarrow>
      validate_session token (run_auth ops (snd (create_session token user_id self)))
        = Some user_id"
    by (simp add: run_auth_keeps_session)
  moreover have "validate_session token (snd (logout token self)) = None"
    by (simp add: validate_session_def logout_def delete_conv')
  moreover have "\<forall>t. t \<noteq> token \<longrightarrow>
       validate_session t (snd (logout token self)) = validate_session t self"
    by (simp add: validate_session_def logout_def delete_conv')
  ultimately show ?thesis
    by (simp add: create_session_def logout_def validate_session_def)
qed

theorem session_round_trip_witness:
  "validate_session ''tokA''
       (run_auth [Create_session ''tokB'' ''U2'', Logout ''tokB'',
          Register_user 3 ''U3'' ''cy@example.org'' ''longpassword'' PROVIDER]
         (snd (create_session ''tokA'' ''U1'' ex_auth))) = Some ''U1''
   \<and> fst (logout ''tokA'' (snd (create_session ''tokA'' ''U1'' ex_auth))) = True
   \<and> fst (logout ''tokA'' ex_auth) = False"
proof -
  let ?ops = "[Create_session ''tokB'' ''U2'', Logout ''tokB'',
        Register_user 3 ''U3'' ''cy@example.org'' ''longpassword'' PROVIDER]"
  have h: "\<forall>op \<in> set ?ops. \<not> is_logout_of ''tokA'' op \<and> \<not> draws_token ''tokA'' op"
    by simp
  note t = session_round_trip [where token = "''tokA''" and user_id = "''U1''"
      and self = ex_auth and ops = ?ops]
  from t h have a: "validate_session ''tokA''
       (run_auth ?ops (snd (create_session ''tokA'' ''U1'' ex_auth))) = Some ''U1''"
    by blast
  have "validate_session ''tokA'' (snd (create_session ''tokA'' ''U1'' ex_auth)) \<noteq> None"
    by (simp add: validate_session_def create_session_def update_conv')
  with session_round_trip [where token = "''tokA''"
      and self = "snd (create_session ''tokA'' ''U1'' ex_auth)"]
  have b: "fst (logout ''tokA'' (snd (create_session ''tokA'' ''U1'' ex_auth))) = True"
    by simp
  have c: "fst (logout ''tokA'' ex_auth) = False"
    by (simp add: logout_def ex_auth_def register_user_def AuthenticationService_init_def)
  from a b c show ?thesis by blast
qed

text \<open>
  C8, as amended. \<open>register_user\<close> returns false, raising nothing, if the identifier
  already exists. Otherwise it raises "Invalid email format" if the email does not have
  the shape \<open>local@domain.tld\<close>, else "Password must be at least 8 characters long" if
  the password has fewer than 8 characters (both are the spec's \<open>ValidationError\<close>),
  leaving the service unchanged; otherwise it returns true and stores the user with
  the active flag set, leaving every other user and the sessions as they were.
\<close>

theorem register_user_result:
  "(map_of (users self) user_id \<noteq> None \<longrightarrow>
      register_user now user_id e pw ut self = (Inr False, self))
 \<and> (map_of (users self) user_id = None \<and> \<not> spec_local_at_domain_tld e \<longrightarrow>
      register_user now user_id e pw ut self = (Inl Invalid_email_format, self))
 \<and> (map_of (users self) user_id = None \<and> spec_local_at_domain_tld e \<and> length pw < 8 \<longrightarrow>
      register_user now user_id e pw ut self = (Inl Password_too_short, self))
 \<and> (map_of (users self) user_id = None \<and> spec_local_at_domain_tld e \<and> 8 \<le> length pw \<longrightarrow>
      fst (register_user now user_id e pw ut self) = Inr True
    \<and> map_of (users (snd (register_user now user_id e pw ut self))) user_id =
        Some \<lparr>u_email = e, u_password = pw, u_user_type = ut, u_created_at = now,
              u_is_active = True\<rparr>
    \<and> (\<forall>u. u \<noteq> user_id \<longrightarrow>
          map_of (users (snd (register_user now user_id e pw ut self))) u
            = map_of (users self) u)
    \<and> active_sessions (snd (register_user now user_id e pw ut self)) = active_sessions self)"
proof -
  have nonempty: "spec_local_at_domain_tld e \<Longrightarrow> e \<noteq> []"
    by (auto simp: spec_local_at_domain_tld_def)
  show ?thesis
    using nonempty
    by (auto simp: register_user_def re_match_email_iff update_conv')
qed

theorem register_user_result_witness:
  "map_of (users ex_auth) ''U2'' = None
   \<and> spec_local_at_domain_tld ''bo@example.org''
   \<and> fst (register_user 2 ''U2'' ''bo@example.org'' ''longpassword'' PROVIDER ex_auth) = Inr True
   \<and> \<not> spec_local_at_domain_tld ''bo.example.org''
   \<and> register_user 2 ''U2'' ''bo.example.org'' ''longpassword'' PROVIDER ex_auth
       = (Inl Invalid_email_format, ex_auth)
   \<and> register_user 2 ''U2'' ''bo@example.org'' ''short'' PROVIDER ex_auth
       = (Inl Password_too_short, ex_auth)
   \<and> map_of (users ex_auth) ''U1'' \<noteq> None
   \<and> register_user 2 ''U1'' ''bo@example.org'' ''longpassword'' PROVIDER ex_auth
       = (Inr False, ex_auth)"
proof -
  have u2: "map_of (users ex_auth) ''U2'' = None" and u1: "map_of (users ex_auth) ''U1'' \<noteq> None"
    by (simp_all add: ex_auth_eq)
  have good: "spec_local_at_domain_tld ''bo@example.org''"
    unfolding re_match_email_iff [symmetric] by (simp add: re_match_email_def dollar_def)
  have bad: "\<not> spec_local_at_domain_tld ''bo.example.org''"
    unfolding re_match_email_iff [symmetric] by (simp add: re_match_email_def dollar_def)
  note r = register_user_result [where self = ex_auth and now = 2 and ut = PROVIDER]
  from r [where user_id = "''U2''" and e = "''bo@example.org''" and pw = "''longpassword''"]
    u2 good
  have a: "fst (register_user 2 ''U2'' ''bo@example.org'' ''longpassword'' PROVIDER ex_auth)
      = Inr True"
    by simp
  from r [where user_id = "''U2''" and e = "''bo.example.org''" and pw = "''longpassword''"]
    u2 bad
  have b: "register_user 2 ''U2'' ''bo.example.org'' ''longpassword'' PROVIDER ex_auth
       = (Inl Invalid_email_format, ex_auth)"
    by blast
  from r [where user_id = "''U2''" and e = "''bo@example.org''" and pw = "''short''"]
    u2 good
  have c: "register_user 2 ''U2'' ''bo@example.org'' ''short'' PROVIDER ex_auth
       = (Inl Password_too_short, ex_auth)"
    by simp
  from r [where user_id = "''U1''" and e = "''bo@example.org''" and pw = "''longpassword''"]
    u1
  have d: "register_user 2 ''U1'' ''bo@example.org'' ''longpassword'' PROVIDER ex_auth
       = (Inr False, ex_auth)"
    by blast
  from u1 u2 good bad a b c d show ?thesis by blast
qed

text \<open>
  C8 as stated fails: for an identifier that already exists, a malformed email and a
  short password give false, not an error.
\<close>

theorem register_user_result_counterexample:
  "\<not> spec_local_at_domain_tld ''bo.example.org''
   \<and> length ''short'' < 8
   \<and> register_user 2 ''U1'' ''bo.example.org'' ''short'' PROVIDER ex_auth = (Inr False, ex_auth)"
proof -
  have "\<not> spec_local_at_domain_tld ''bo.example.org''"
    unfolding re_match_email_iff [symmetric] by (simp add: re_match_email_def dollar_def)
  moreover have "register_user 2 ''U1'' ''bo.example.org'' ''short'' PROVIDER ex_auth
      = (Inr False, ex_auth)"
    by (simp add: register_user_def ex_auth_eq)
  ultimately show ?thesis by simp
qed

text \<open>
  C9. In \<open>submit_claim\<close> the duplicate check comes first: if the claim's identifier is
  already stored, the call returns false, raises nothing and leaves the engine
  unchanged, whatever the claim's patient and amount are.
\<close>

theorem submit_claim_duplicate_first:
  assumes "map_of (claims self) (Claim.id (heap self r)) \<noteq> None"
  shows "submit_claim now r self = (Inr False, self)"
  using assms by (simp add: submit_claim_def Let_def)

theorem submit_claim_duplicate_first_witness:
  "map_of (claims ex_engine3) (Claim.id (heap ex_engine3 3)) \<noteq> None
   \<and> submit_claim 9 3 ex_engine3 = (Inr False, ex_engine3)"
proof -
  have h: "map_of (claims ex_engine3) (Claim.id (heap ex_engine3 3)) \<noteq> None"
    by (simp add: ex_engine3_eq ex_heap_def ex_claim_def)
  from submit_claim_duplicate_first [OF h] h show ?thesis by simp
qed

text \<open>
  C10. When \<open>approve_claim\<close> or \<open>reject_claim\<close> returns true on an identifier, an
  object is stored under it and only the status and \<open>updated_at\<close> of that object
  change: every claim stored under another identifier is the same object with the same
  contents, and the claims dictionary, the patients and both thresholds are as before.
  The engine is assumed \<open>well_formed\<close>, which holds initially and after each operation.
\<close>

theorem decision_frame:
  assumes "well_formed self"
    and "approve_claim now cid self = (True, self') \<or> reject_claim now cid reason self = (True, self')"
  shows "\<exists>r. map_of (claims self) cid = Some r
       \<and> (\<forall>k r'. k \<noteq> cid \<and> map_of (claims self) k = Some r' \<longrightarrow> heap self' r' = heap self r')
       \<and> (\<forall>k. k \<noteq> cid \<longrightarrow> get_claim k self' = get_claim k self)
       \<and> (\<exists>st t. heap self' r = (heap self r)\<lparr>status := st, updated_at := t\<rparr>)
       \<and> claims self' = claims self \<and> patients self' = patients self
       \<and> auto_approve_threshold self' = auto_approve_threshold self
       \<and> max_claim_amount self' = max_claim_amount self"
proof -
  from assms(2) obtain r where r: "map_of (claims self) cid = Some r"
    by (auto simp: approve_claim_def reject_claim_def split: option.splits)
  from assms(2) r obtain st where
    self': "self' = self\<lparr>heap := (heap self)(r := (heap self r)\<lparr>status := st, updated_at := Some now\<rparr>)\<rparr>"
    by (auto simp: approve_claim_def reject_claim_def split: if_splits)
  have other: "r' \<noteq> r" if "k \<noteq> cid" "map_of (claims self) k = Some r'" for k r'
    using well_formed_unique_id [OF assms(1) r, of k] that by auto
  have get: "get_claim k self' = get_claim k self" if "k \<noteq> cid" for k
    using other [OF that] self' by (cases "map_of (claims self) k") (auto simp: get_claim_def)
  show ?thesis
    using r self' other get by auto
qed

theorem decision_frame_witness:
  "approve_claim 7 ''C2'' ex_engine3 = (True, snd (approve_claim 7 ''C2'' ex_engine3))
   \<and> get_claim ''C3'' (snd (approve_claim 7 ''C2'' ex_engine3)) = get_claim ''C3'' ex_engine3
   \<and> patients (snd (approve_claim 7 ''C2'' ex_engine3)) = patients ex_engine3"
proof -
  have wf: "well_formed ex_engine3"
    by (simp add: well_formed_def ex_engine3_eq ex_claim_def)
  have a: "approve_claim 7 ''C2'' ex_engine3 = (True, snd (approve_claim 7 ''C2'' ex_engine3))"
    by (simp add: approve_claim_def ex_engine3_eq ex_claim_def)
  then have "approve_claim 7 ''C2'' ex_engine3 = (True, snd (approve_claim 7 ''C2'' ex_engine3))
      \<or> reject_claim 7 ''C2'' [] ex_engine3 = (True, snd (approve_claim 7 ''C2'' ex_engine3))"
    by simp
  from decision_frame [OF wf this] a show ?thesis by auto
qed

end
